theory Spec2Isabelle
  imports Main "HOL-Library.Sublist"
begin

section \<open>Removal tool: reconciliation of a workbook against an older submission\<close>

text \<open>
  The development embeds \<open>RemovalTool._process_removal\<close> of
  \<open>rtvm/removal-tool.py\<close>. A Python \<open>str\<close> is a \<open>string\<close> whose characters are the
  code points below 256; a cell of a DataFrame or of a worksheet is a \<open>string option\<close>,
  \<open>None\<close> for a blank cell (pandas NaN, openpyxl \<open>None\<close>) and \<open>Some s\<close> for a value
  whose \<open>str()\<close> is \<open>s\<close>.
\<close>

type_synonym cell = "string option"

subsection \<open>Library functions of Python used by the code\<close>

text \<open>\<open>str.isspace\<close> on the code points below 256.\<close>

definition is_space :: "char \<Rightarrow> bool" where
  "is_space c \<longleftrightarrow> c \<in> {CHR 0x09, CHR 0x0A, CHR 0x0B, CHR 0x0C, CHR 0x0D,
     CHR 0x1C, CHR 0x1D, CHR 0x1E, CHR 0x1F, CHR 0x20, CHR 0x85, CHR 0xA0}"

text \<open>\<open>line.strip()\<close>: leading and trailing whitespace removed.\<close>

definition strip :: "string \<Rightarrow> string" where
  "strip s = rev (dropWhile is_space (rev (dropWhile is_space s)))"

text \<open>\<open>s.split('\n')\<close>: the pieces between newline characters, at least one piece.\<close>

fun split_nl :: "string \<Rightarrow> string list" where
  "split_nl [] = [[]]"
| "split_nl (c # cs) =
     (if c = CHR 0x0A then [] # split_nl cs
      else (case split_nl cs of [] \<Rightarrow> [[c]] | l # ls \<Rightarrow> (c # l) # ls))"

text \<open>\<open>'\n'.join(lines)\<close>.\<close>

fun join_nl :: "string list \<Rightarrow> string" where
  "join_nl [] = []"
| "join_nl [l] = l"
| "join_nl (l # m # ls) = l @ CHR 0x0A # join_nl (m # ls)"

text \<open>\<open>str(n)\<close> for a non-negative integer: its decimal digits.\<close>

definition digit_char :: "nat \<Rightarrow> char" where
  "digit_char d = ''0123456789'' ! d"

fun str_nat :: "nat \<Rightarrow> string" where
  "str_nat n = (if n < 10 then [digit_char n] else str_nat (n div 10) @ [digit_char (n mod 10)])"

declare str_nat.simps [simp del]

text \<open>\<open>str(x)\<close> of a cell value: a NaN prints as \<open>nan\<close>.\<close>

definition str_cell :: "cell \<Rightarrow> string" where
  "str_cell c = (case c of None \<Rightarrow> ''nan'' | Some s \<Rightarrow> s)"

subsection \<open>Line extraction\<close>

text \<open>
  \<^verbatim>\<open>
  if pd.isna(s): s = ""
  lines = [line.strip() for line in str(s).split('\n') if line.strip()]
  \<close>
\<close>

definition cell_text :: "cell \<Rightarrow> string" where
  "cell_text c = (case c of None \<Rightarrow> [] | Some s \<Rightarrow> s)"

definition extract_lines :: "cell \<Rightarrow> string list" where
  "extract_lines c = map strip (filter (\<lambda>line. strip line \<noteq> []) (split_nl (cell_text c)))"


subsection \<open>Data\<close>

text \<open>
  A row of a DataFrame is read by the code at three positions only: position 0 (the
  object identifier), position 6 (\<open>proposed_changes_col\<close>) and \<open>comment_col\<close>, the
  position of the column named \<open>Contractor Proposed Change Comment Input\<close> in the new
  file. The record holds these three cells, taken to lie in three different columns. The
  columns hold text (dtype \<open>object\<close>), so the assignments to the frame in lines 184, 185,
  252 and 272 are accepted.
\<close>

record row =
  object_id :: cell
  pattern_text :: cell
  comment_text :: cell

record dataframe =
  columns :: "string list"
  rows :: "row list"

text \<open>
  An entry of \<open>old_patterns_map\<close>: a dictionary that always has the key \<open>'patterns'\<close>
  and has the key \<open>'comments'\<close> once the second pass has stored it.
\<close>

record entry =
  patterns :: "string set"
  comments :: "string set option"

type_synonym patterns_map = "string \<rightharpoonup> entry"

text \<open>The state the main loop works on.\<close>

record state =
  df :: "row list"
  removed_patterns :: "string list"
  removed_comments :: "string list"
  changes_made :: bool

text \<open>
  The active sheet of the persisted workbook: cell values by (row, column), both counted
  from 1, and \<open>max_column\<close>.
\<close>

record worksheet =
  cells :: "nat \<times> nat \<Rightarrow> cell"
  max_column :: nat

text \<open>The message the background thread ends with on \<open>progress_queue\<close>.\<close>

datatype message = Error string | Result string

subsection \<open>Index of the old file (lines 187--217)\<close>

text \<open>
  \<^verbatim>\<open>
  for idx, row in old_df.iterrows():
      obj_id = str(row.iloc[object_id_col])
      ...
      old_patterns_map[obj_id] = {'patterns': old_patterns_set}
  \<close>
\<close>

fun old_patterns_pass :: "row list \<Rightarrow> patterns_map \<Rightarrow> patterns_map" where
  "old_patterns_pass [] m = m"
| "old_patterns_pass (r # rs) m =
     (let obj_id = str_cell (object_id r);
          old_patterns_set = set (extract_lines (pattern_text r))
      in old_patterns_pass rs (m(obj_id \<mapsto> \<lparr>patterns = old_patterns_set, comments = None\<rparr>)))"

text \<open>
  \<^verbatim>\<open>
  for idx, row in old_df.iterrows():
      ...
      if obj_id not in old_patterns_map:
          old_patterns_map[obj_id] = {'patterns': set()}
      old_patterns_map[obj_id]['comments'] = old_comments_set
  \<close>
\<close>

fun old_comments_pass :: "row list \<Rightarrow> patterns_map \<Rightarrow> patterns_map" where
  "old_comments_pass [] m = m"
| "old_comments_pass (r # rs) m =
     (let obj_id = str_cell (object_id r);
          old_comments_set = set (extract_lines (comment_text r));
          e = (case m obj_id of None \<Rightarrow> \<lparr>patterns = {}, comments = None\<rparr> | Some e \<Rightarrow> e)
      in old_comments_pass rs (m(obj_id \<mapsto> e\<lparr>comments := Some old_comments_set\<rparr>)))"

definition build_index :: "row list \<Rightarrow> patterns_map" where
  "build_index old_rows = old_comments_pass old_rows (old_patterns_pass old_rows Map.empty)"

subsection \<open>Removal loop (lines 223--272)\<close>

text \<open>The entry \<open>f"Row {idx+2}: {line}"\<close> of a removal list.\<close>

definition removal_entry :: "nat \<Rightarrow> string \<Rightarrow> string" where
  "removal_entry idx line = ''Row '' @ str_nat (idx + 2) @ '': '' @ line"

text \<open>
  \<^verbatim>\<open>
  filtered_lines = []
  for line in new_lines:
      if line in old_patterns_set:
          removed_patterns.append(f"Row {idx+2}: {line}")
      else:
          filtered_lines.append(line)
  \<close>
  The pair is (removal list, filtered lines).
\<close>

fun filter_loop ::
  "string set \<Rightarrow> nat \<Rightarrow> string list \<Rightarrow> string list \<times> string list \<Rightarrow> string list \<times> string list" where
  "filter_loop old idx [] (removed, filtered) = (removed, filtered)"
| "filter_loop old idx (line # rest) (removed, filtered) =
     (if line \<in> old then filter_loop old idx rest (removed @ [removal_entry idx line], filtered)
      else filter_loop old idx rest (removed, filtered @ [line]))"

text \<open>\<open>df.iat[idx, col] = value\<close> for the two columns the loop writes.\<close>

definition iat_pattern :: "row list \<Rightarrow> nat \<Rightarrow> string \<Rightarrow> row list" where
  "iat_pattern d idx v = d[idx := (d ! idx)\<lparr>pattern_text := Some v\<rparr>]"

definition iat_comment :: "row list \<Rightarrow> nat \<Rightarrow> string \<Rightarrow> row list" where
  "iat_comment d idx v = d[idx := (d ! idx)\<lparr>comment_text := Some v\<rparr>]"

text \<open>The part of the loop body for the pattern column (lines 233--252).\<close>

definition remove_patterns :: "patterns_map \<Rightarrow> nat \<Rightarrow> row \<Rightarrow> state \<Rightarrow> state" where
  "remove_patterns m idx r s =
     (let obj_id = str_cell (object_id r);
          new_lines = extract_lines (pattern_text r)
      in case m obj_id of
           None \<Rightarrow> s
         | Some e \<Rightarrow>
             (let old_patterns_set = patterns e;
                  (removed, filtered_lines) =
                     filter_loop old_patterns_set idx new_lines (removed_patterns s, []);
                  s1 = s\<lparr>removed_patterns := removed\<rparr>
              in if length filtered_lines \<noteq> length new_lines
                 then s1\<lparr>changes_made := True,
                         df := iat_pattern (df s1) idx (join_nl filtered_lines)\<rparr>
                 else s1))"

text \<open>The part of the loop body for the comment column (lines 254--272).\<close>

definition remove_comments :: "patterns_map \<Rightarrow> nat \<Rightarrow> row \<Rightarrow> state \<Rightarrow> state" where
  "remove_comments m idx r s =
     (let obj_id = str_cell (object_id r);
          new_comment_lines = extract_lines (comment_text r)
      in case m obj_id of
           None \<Rightarrow> s
         | Some e \<Rightarrow>
             (case comments e of
                None \<Rightarrow> s
              | Some old_comments_set \<Rightarrow>
                  (let (removed, filtered_comment_lines) =
                          filter_loop old_comments_set idx new_comment_lines (removed_comments s, []);
                       s1 = s\<lparr>removed_comments := removed\<rparr>
                   in if length filtered_comment_lines \<noteq> length new_comment_lines
                      then s1\<lparr>changes_made := True,
                              df := iat_comment (df s1) idx (join_nl filtered_comment_lines)\<rparr>
                      else s1)))"

definition reconcile_row :: "patterns_map \<Rightarrow> nat \<Rightarrow> row \<Rightarrow> state \<Rightarrow> state" where
  "reconcile_row m idx r s = remove_comments m idx r (remove_patterns m idx r s)"

text \<open>
  \<open>for idx, row in self.app.model.df.iterrows()\<close>: the rows are those of the frame when
  the loop starts; the body writes to the frame at the row it is visiting. The frame has
  the index \<open>read_excel\<close> gives it, so the label \<open>idx\<close> is the position of the row.
\<close>

fun reconcile_loop :: "patterns_map \<Rightarrow> nat \<Rightarrow> row list \<Rightarrow> state \<Rightarrow> state" where
  "reconcile_loop m idx [] s = s"
| "reconcile_loop m idx (r # rs) s = reconcile_loop m (Suc idx) rs (reconcile_row m idx r s)"

definition reconcile :: "patterns_map \<Rightarrow> row list \<Rightarrow> state" where
  "reconcile m current =
     reconcile_loop m 0 current
       \<lparr>df = current, removed_patterns = [], removed_comments = [], changes_made = False\<rparr>"


subsection \<open>Writing the workbook (lines 283--312)\<close>

definition comment_col_name :: string where
  "comment_col_name = ''Contractor Proposed Change Comment Input''"

text \<open>
  \<^verbatim>\<open>
  comment_col_letter = None
  for col in range(1, ws.max_column + 1):
      header_val = ws.cell(row=header_row, column=col).value
      if header_val == comment_col_name:
          comment_col_letter = col
          break
  \<close>
\<close>

definition find_comment_col :: "worksheet \<Rightarrow> nat option" where
  "find_comment_col ws =
     List.find (\<lambda>col. cells ws (1, col) = Some comment_col_name) [1 ..< max_column ws + 1]"

text \<open>
  A call of a library function either returns a value or raises an exception; the
  exception is held by its text \<open>str(e)\<close>, on the left.
\<close>

type_synonym 'a raising = "string + 'a"

text \<open>
  The control characters openpyxl refuses in a cell value (\<open>ILLEGAL_CHARACTERS_RE\<close>): the
  code points 0 to 8, 11, 12 and 14 to 31.
\<close>

definition illegal_char :: "char \<Rightarrow> bool" where
  "illegal_char c =
     (let n = of_char c :: nat in n \<le> 8 \<or> n = 11 \<or> n = 12 \<or> (14 \<le> n \<and> n \<le> 31))"

text \<open>
  \<open>Cell.check_string\<close> of openpyxl: the text is cut to 32767 characters and refused with an
  \<open>IllegalCharacterError\<close> when it holds an illegal character.
\<close>

definition check_string :: "string \<Rightarrow> string raising" where
  "check_string v =
     (let value = take 32767 v
      in if list_ex illegal_char value then Inl (value @ '' cannot be used in worksheets.'')
         else Inr value)"

text \<open>
  \<open>ws.cell(row=r, column=c, value=v)\<close> with a text value: the value is checked and then
  stored in the cell of the loaded workbook.
\<close>

definition ws_cell_set :: "worksheet \<Rightarrow> nat \<Rightarrow> nat \<Rightarrow> string \<Rightarrow> worksheet raising" where
  "ws_cell_set ws r c v =
     (case check_string v of
        Inl e \<Rightarrow> Inl e
      | Inr value \<Rightarrow>
          Inr (ws\<lparr>cells := (cells ws)((r, c) := Some value),
                  max_column := max (max_column ws) c\<rparr>))"

text \<open>
  \<^verbatim>\<open>
  for idx, row in enumerate(self.app.model.df.iterrows()):
      row_index, row_data = row
      new_content = row_data.iloc[proposed_changes_col]
      if pd.isna(new_content): new_content = ""
      ws.cell(row=idx+2, column=7, value=new_content)
      new_comment_content = row_data.iloc[comment_col]
      if pd.isna(new_comment_content): new_comment_content = ""
      if comment_col_letter is not None:
          ws.cell(row=idx+2, column=comment_col_letter, value=new_comment_content)
  \<close>
  The loop ends at the first call that raises.
\<close>

fun write_loop :: "nat option \<Rightarrow> nat \<Rightarrow> row list \<Rightarrow> worksheet \<Rightarrow> worksheet raising" where
  "write_loop comment_col_letter idx [] ws = Inr ws"
| "write_loop comment_col_letter idx (row_data # rest) ws =
     (let new_content = cell_text (pattern_text row_data)
      in case ws_cell_set ws (idx + 2) 7 new_content of
           Inl e \<Rightarrow> Inl e
         | Inr ws1 \<Rightarrow>
             (let new_comment_content = cell_text (comment_text row_data)
              in case (case comment_col_letter of
                         None \<Rightarrow> Inr ws1
                       | Some c \<Rightarrow> ws_cell_set ws1 (idx + 2) c new_comment_content) of
                   Inl e \<Rightarrow> Inl e
                 | Inr ws2 \<Rightarrow> write_loop comment_col_letter (Suc idx) rest ws2))"

text \<open>Lines 290--310: the header search and the loop, on the loaded workbook.\<close>

definition write_workbook :: "row list \<Rightarrow> worksheet \<Rightarrow> worksheet raising" where
  "write_workbook d ws = write_loop (find_comment_col ws) 0 d ws"

subsection \<open>Result message (lines 314--327)\<close>

definition result_message :: "string list \<Rightarrow> string list \<Rightarrow> string" where
  "result_message rp rc =
     (let m1 = ''Successfully removed '' @ str_nat (length rp)
                @ '' previously submitted patterns and '' @ str_nat (length rc)
                @ '' previously submitted comments.'' @ [CHR 0x0A, CHR 0x0A]
                @ ''Removed patterns:'' @ [CHR 0x0A] @ join_nl (take 20 rp);
          m2 = (if length rp > 20
                then m1 @ [CHR 0x0A] @ ''... and '' @ str_nat (length rp - 20) @ '' more''
                else m1);
          m3 = m2 @ [CHR 0x0A, CHR 0x0A] @ ''Removed comments:'' @ [CHR 0x0A]
                @ join_nl (take 20 rc);
          m4 = (if length rc > 20
                then m3 @ [CHR 0x0A] @ ''... and '' @ str_nat (length rc - 20) @ '' more''
                else m3)
      in m4)"

subsection \<open>The whole operation (lines 150--337)\<close>

text \<open>\<open>df.columns.get_loc(name)\<close> for a name that occurs in the columns.\<close>

definition get_loc :: "string list \<Rightarrow> string \<Rightarrow> nat" where
  "get_loc cols name = length (takeWhile (\<lambda>c. c \<noteq> name) cols)"

text \<open>\<open>df.iloc[:, 0] = df.iloc[:, 0].astype(str)\<close>.\<close>

definition astype_str :: "row list \<Rightarrow> row list" where
  "astype_str d = map (\<lambda>r. r\<lparr>object_id := Some (str_cell (object_id r))\<rparr>) d"

definition quoted :: "string \<Rightarrow> string" where
  "quoted s = [CHR 0x27] @ s @ [CHR 0x27]"

text \<open>
  The arguments are the frame of the loaded new file, what \<open>pd.read_excel\<close> gives for the
  old file (its frame, or the exception it raises), what \<open>load_workbook\<close> gives for the
  persisted new file (its active sheet, or the exception it raises) and the exception
  \<open>wb.save\<close> raises, if any. The result is the final message, the frame as the operation
  leaves it, and the sheet the operation saved: \<open>None\<close> when the operation ends without a
  completed save. An exception raised before the workbook is loaded is caught in line 335,
  one raised by loading, writing or saving in line 331.
\<close>

definition process_removal ::
  "dataframe \<Rightarrow> dataframe raising \<Rightarrow> worksheet raising \<Rightarrow> string option \<Rightarrow>
   message \<times> dataframe \<times> worksheet option" where
  "process_removal new_df read_old load_new save_raises =
     (case read_old of
        Inl e \<Rightarrow> (Error (''An unexpected error occurred: '' @ e), new_df, None)
      | Inr old_df \<Rightarrow>
     (let proposed_changes_col = 6 :: nat in
      if comment_col_name \<notin> set (columns new_df)
      then (Error (''Column '' @ quoted comment_col_name @ '' not found in new file.''),
            new_df, None)
      else
        let comment_col = get_loc (columns new_df) comment_col_name in
        if proposed_changes_col \<ge> length (columns new_df)
        then (Error ''Proposed Changes column not found in new file.'', new_df, None)
        else if proposed_changes_col \<ge> length (columns old_df)
        then (Error ''Proposed Changes column not found in old file.'', new_df, None)
        else if comment_col \<ge> length (columns new_df)
        then (Error (quoted comment_col_name @ '' column not found in new file.''), new_df, None)
        else if comment_col \<ge> length (columns old_df)
        then (Error (quoted comment_col_name @ '' column not found in old file.''), new_df, None)
        else
          let current = astype_str (rows new_df);
              old_rows = astype_str (rows old_df);
              old_patterns_map = build_index old_rows;
              s = reconcile old_patterns_map current;
              new_df' = new_df\<lparr>rows := df s\<rparr>
          in if \<not> changes_made s
             then (Result ''No previously submitted requests or comments were found to remove.'',
                   new_df', None)
             else
               (case load_new of
                  Inl e \<Rightarrow> (Error (''Failed to save updated file: '' @ e), new_df', None)
                | Inr ws \<Rightarrow>
                    (case write_workbook (df s) ws of
                       Inl e \<Rightarrow> (Error (''Failed to save updated file: '' @ e), new_df', None)
                     | Inr ws' \<Rightarrow>
                         (case save_raises of
                            Some e \<Rightarrow>
                              (Error (''Failed to save updated file: '' @ e), new_df', None)
                          | None \<Rightarrow>
                              (Result (result_message (removed_patterns s) (removed_comments s)),
                               new_df', Some ws'))))))"

subsection \<open>The effect of the loop on one cell, for the proofs\<close>

text \<open>The set a column of a row is filtered against, if any.\<close>

definition old_pattern_set :: "patterns_map \<Rightarrow> row \<Rightarrow> string set option" where
  "old_pattern_set m r = map_option patterns (m (str_cell (object_id r)))"

definition old_comment_set :: "patterns_map \<Rightarrow> row \<Rightarrow> string set option" where
  "old_comment_set m r = (case m (str_cell (object_id r)) of None \<Rightarrow> None | Some e \<Rightarrow> comments e)"

definition touched :: "string set option \<Rightarrow> cell \<Rightarrow> bool" where
  "touched old c = (case old of None \<Rightarrow> False | Some S \<Rightarrow> \<exists>l\<in>set (extract_lines c). l \<in> S)"

definition filtered_cell :: "string set option \<Rightarrow> cell \<Rightarrow> cell" where
  "filtered_cell old c =
     (case old of None \<Rightarrow> c
      | Some S \<Rightarrow> if touched old c then Some (join_nl (filter (\<lambda>l. l \<notin> S) (extract_lines c))) else c)"

definition removed_of :: "string set option \<Rightarrow> nat \<Rightarrow> cell \<Rightarrow> string list" where
  "removed_of old idx c =
     (case old of None \<Rightarrow> []
      | Some S \<Rightarrow> map (removal_entry idx) (filter (\<lambda>l. l \<in> S) (extract_lines c)))"

definition row_after :: "patterns_map \<Rightarrow> row \<Rightarrow> row" where
  "row_after m r =
     r\<lparr>pattern_text := filtered_cell (old_pattern_set m r) (pattern_text r),
       comment_text := filtered_cell (old_comment_set m r) (comment_text r)\<rparr>"

subsection \<open>Example inputs\<close>

definition wcc_prior :: "row list" where
  "wcc_prior = [\<lparr>object_id = Some ''WCC-1'', pattern_text = Some ''A\<newline>B'', comment_text = None\<rparr>]"

definition wcc_current :: "row list" where
  "wcc_current =
     [\<lparr>object_id = Some ''WCC-1'', pattern_text = Some ''A\<newline>B\<newline>C'', comment_text = None\<rparr>]"

definition dup_prior :: "row list" where
  "dup_prior =
     [\<lparr>object_id = Some ''X'', pattern_text = Some ''P1'', comment_text = Some ''K1''\<rparr>,
      \<lparr>object_id = Some ''X'', pattern_text = Some ''P2'', comment_text = Some ''K2''\<rparr>]"

definition other_row :: row where
  "other_row = \<lparr>object_id = Some ''WCC-2'', pattern_text = Some ''C'', comment_text = None\<rparr>"

definition blank_row :: row where
  "blank_row = \<lparr>object_id = Some ''WCC-2'', pattern_text = None, comment_text = None\<rparr>"

definition ex_columns :: "string list" where
  "ex_columns =
     [''Object ID'', ''B'', ''C'', ''D'', ''E'', ''F'', ''Proposed Changes'', comment_col_name]"

definition ex_new_df :: dataframe where
  "ex_new_df = \<lparr>columns = ex_columns, rows = wcc_current @ [blank_row]\<rparr>"

definition ex_old_df :: dataframe where
  "ex_old_df = \<lparr>columns = ex_columns, rows = wcc_prior\<rparr>"

text \<open>
  The sheet of the file \<open>ex_new_df\<close> was read from, without and with the header of the
  comment column.
\<close>

definition ex_ws_no_header :: worksheet where
  "ex_ws_no_header =
     \<lparr>cells = (\<lambda>_. None)
        ((1, 1) := Some ''Object ID'', (1, 7) := Some ''Proposed Changes'',
         (2, 1) := Some ''WCC-1'', (2, 7) := Some ''A\<newline>B\<newline>C'',
         (3, 1) := Some ''WCC-2''),
      max_column = 7\<rparr>"

definition ex_ws :: worksheet where
  "ex_ws =
     \<lparr>cells = (cells ex_ws_no_header)((1, 8) := Some comment_col_name), max_column = 8\<rparr>"

text \<open>A current file whose surviving pattern line holds a vertical tab.\<close>

definition vt_new_df :: dataframe where
  "vt_new_df =
     \<lparr>columns = ex_columns,
      rows = [\<lparr>object_id = Some ''WCC-1'',
               pattern_text = Some (''A\<newline>B\<newline>'' @ [CHR ''C'', CHR 0x0B, CHR ''D'']),
               comment_text = None\<rparr>]\<rparr>"

definition many_removed :: "string list" where
  "many_removed = replicate 25 ''Row 2: A''"

section \<open>Properties\<close>

subsection \<open>Splitting, joining and trimming\<close>

lemma split_nl_nonempty: "split_nl s \<noteq> []"
  by (induction s) (auto split: list.splits)

lemma join_split_nl: "join_nl (split_nl s) = s"
proof (induction s)
  case Nil
  show ?case by simp
next
  case (Cons c cs)
  show ?case
  proof (cases "c = CHR 0x0A")
    case True
    then show ?thesis using Cons split_nl_nonempty [of cs]
      by (cases "split_nl cs") auto
  next
    case False
    then show ?thesis using Cons split_nl_nonempty [of cs]
      by (cases "split_nl cs"; cases "tl (split_nl cs)") auto
  qed
qed

lemma split_nl_no_newline: "l \<in> set (split_nl s) \<Longrightarrow> CHR 0x0A \<notin> set l"
  by (induction s arbitrary: l) (auto split: if_splits list.splits)

lemma split_nl_line: "CHR 0x0A \<notin> set l \<Longrightarrow> split_nl l = [l]"
  by (induction l) auto

lemma split_nl_append:
  "CHR 0x0A \<notin> set l \<Longrightarrow> split_nl (l @ CHR 0x0A # s) = l # split_nl s"
  by (induction l) auto

lemma split_join_nl:
  "ls \<noteq> [] \<Longrightarrow> \<forall>l\<in>set ls. CHR 0x0A \<notin> set l \<Longrightarrow> split_nl (join_nl ls) = ls"
  by (induction ls rule: join_nl.induct) (auto simp: split_nl_line split_nl_append)

lemma strip_decomp:
  "\<exists>pre suf. s = pre @ strip s @ suf \<and> (\<forall>c\<in>set pre. is_space c) \<and> (\<forall>c\<in>set suf. is_space c)"
proof -
  let ?a = "takeWhile is_space s" and ?b = "dropWhile is_space s"
  let ?suf = "rev (takeWhile is_space (rev ?b))"
  have "rev ?b = takeWhile is_space (rev ?b) @ dropWhile is_space (rev ?b)" by simp
  then have "?b = rev (dropWhile is_space (rev ?b)) @ ?suf"
    by (metis rev_append rev_rev_ident)
  then have "s = ?a @ strip s @ ?suf"
    unfolding strip_def by (metis takeWhile_dropWhile_id)
  moreover have "\<forall>c\<in>set ?a. is_space c" by (auto dest: set_takeWhileD)
  moreover have "\<forall>c\<in>set ?suf. is_space c" by (auto dest: set_takeWhileD)
  ultimately show ?thesis by blast
qed

lemma strip_subset: "set (strip s) \<subseteq> set s"
  unfolding strip_def by (auto dest!: set_dropWhileD)

lemma strip_hd: "strip s \<noteq> [] \<Longrightarrow> \<not> is_space (hd (strip s))"
proof -
  assume ne: "strip s \<noteq> []"
  let ?b = "dropWhile is_space s"
  have bne: "?b \<noteq> []" using ne by (metis strip_def dropWhile.simps(1) rev.simps(1))
  then have h: "\<not> is_space (hd ?b)" by (rule hd_dropWhile)
  obtain pre where "rev ?b = pre @ dropWhile is_space (rev ?b)"
    by (metis takeWhile_dropWhile_id)
  then have "?b = strip s @ rev pre" unfolding strip_def by (metis rev_append rev_rev_ident)
  then have "hd ?b = hd (strip s)" using ne by (metis hd_append2)
  with h show ?thesis by simp
qed

lemma strip_last: "strip s \<noteq> [] \<Longrightarrow> \<not> is_space (last (strip s))"
proof -
  assume ne: "strip s \<noteq> []"
  let ?r = "dropWhile is_space (rev (dropWhile is_space s))"
  have "?r \<noteq> []" using ne unfolding strip_def by (simp only: rev_is_Nil_conv not_False_eq_True)
  then have "\<not> is_space (hd ?r)" by (rule hd_dropWhile)
  moreover have "last (strip s) = hd ?r" unfolding strip_def using \<open>?r \<noteq> []\<close> by (simp add: last_rev)
  ultimately show ?thesis by simp
qed

lemma strip_fixed:
  assumes "s \<noteq> []" "\<not> is_space (hd s)" "\<not> is_space (last s)"
  shows "strip s = s"
proof -
  have a: "dropWhile is_space s = s" using assms by (cases s) auto
  have "rev s \<noteq> []" using assms by simp
  moreover have "hd (rev s) = last s" using assms by (simp add: hd_rev)
  ultimately have "dropWhile is_space (rev s) = rev s" using assms
    by (simp only: dropWhile_eq_self_iff) simp
  with a show ?thesis unfolding strip_def by simp
qed

lemma strip_strip: "strip (strip s) = strip s"
proof (cases "strip s = []")
  case True
  have "strip [] = []" by (simp add: strip_def)
  with True show ?thesis by (simp only:)
next
  case False
  then show ?thesis by (intro strip_fixed strip_hd strip_last)
qed

lemma extract_lines_alt:
  "extract_lines c = filter (\<lambda>l. l \<noteq> []) (map strip (split_nl (cell_text c)))"
  unfolding extract_lines_def by (simp add: filter_map comp_def)

lemma extract_lines_props:
  assumes "l \<in> set (extract_lines c)"
  shows "l \<noteq> []" "CHR 0x0A \<notin> set l" "strip l = l"
proof -
  from assms obtain x where x: "x \<in> set (split_nl (cell_text c))" "l = strip x" "strip x \<noteq> []"
    unfolding extract_lines_def by auto
  show "l \<noteq> []" using x by simp
  show "CHR 0x0A \<notin> set l" using x split_nl_no_newline [OF x(1)] strip_subset [of x] by auto
  show "strip l = l" using x by (simp add: strip_strip)
qed

lemma extract_join_fixed:
  assumes "\<forall>l\<in>set ls. l \<noteq> [] \<and> CHR 0x0A \<notin> set l \<and> strip l = l"
  shows "extract_lines (Some (join_nl ls)) = ls"
proof (cases "ls = []")
  case True
  then show ?thesis by (simp add: extract_lines_def cell_text_def strip_def)
next
  case False
  then have "split_nl (join_nl ls) = ls" using assms by (simp add: split_join_nl)
  moreover have "filter (\<lambda>line. strip line \<noteq> []) ls = ls" using assms by (simp add: filter_id_conv)
  moreover have "map strip ls = ls" using assms by (simp add: map_idI)
  ultimately show ?thesis by (simp add: extract_lines_def cell_text_def)
qed

lemma extract_join_filter:
  "extract_lines (Some (join_nl (filter P (extract_lines c)))) = filter P (extract_lines c)"
  by (rule extract_join_fixed) (auto dest: extract_lines_props)

text \<open>
  C6. The line extractor is a total function of the cell: a blank cell gives no line, the
  text of any other cell is cut at its newline characters (joining the pieces with newlines
  gives the text back and no piece holds a newline), every piece is trimmed (it is the
  trimmed piece between two runs of whitespace, and a trimmed piece that is not empty
  neither starts nor ends with whitespace), the pieces that are empty after trimming are
  dropped and the others are returned in their order. The text of two spaces, A, two
  spaces, two newlines and B gives exactly the lines A and B.
\<close>

theorem extract_lines_spec:
  "extract_lines None = []
   \<and> extract_lines c = filter (\<lambda>l. l \<noteq> []) (map strip (split_nl (cell_text c)))
   \<and> join_nl (split_nl (cell_text c)) = cell_text c
   \<and> (\<forall>p\<in>set (split_nl (cell_text c)).
         CHR 0x0A \<notin> set p
         \<and> (\<exists>pre suf. p = pre @ strip p @ suf
               \<and> (\<forall>x\<in>set pre. is_space x) \<and> (\<forall>x\<in>set suf. is_space x))
         \<and> (strip p \<noteq> [] \<longrightarrow> \<not> is_space (hd (strip p)) \<and> \<not> is_space (last (strip p))))
   \<and> extract_lines (Some ''  A  \<newline>\<newline>B'') = [''A'', ''B'']"
proof -
  have a: "extract_lines None = []"
    by (simp add: extract_lines_def cell_text_def strip_def)
  have b: "extract_lines (Some ''  A  \<newline>\<newline>B'') = [''A'', ''B'']"
    by (simp add: extract_lines_def cell_text_def strip_def is_space_def)
  have c: "\<forall>p\<in>set (split_nl (cell_text c)).
         CHR 0x0A \<notin> set p
         \<and> (\<exists>pre suf. p = pre @ strip p @ suf
               \<and> (\<forall>x\<in>set pre. is_space x) \<and> (\<forall>x\<in>set suf. is_space x))
         \<and> (strip p \<noteq> [] \<longrightarrow> \<not> is_space (hd (strip p)) \<and> \<not> is_space (last (strip p)))"
    using split_nl_no_newline strip_decomp strip_hd strip_last by blast
  show ?thesis
    using a b c extract_lines_alt [of c] join_split_nl [of "cell_text c"] by blast
qed

theorem extract_lines_spec_witness:
  "''  A  '' \<in> set (split_nl (cell_text (Some ''  A  \<newline>\<newline>B'')))
   \<and> strip ''  A  '' = ''A''
   \<and> \<not> is_space (hd (strip ''  A  ''))
   \<and> extract_lines (Some ''  A  \<newline>\<newline>B'') = [''A'', ''B'']"
  using extract_lines_spec [of "Some ''  A  \<newline>\<newline>B''"]
  by (simp add: cell_text_def strip_def is_space_def)

subsection \<open>The removal loop in closed form\<close>

lemma filter_loop_eq:
  "filter_loop old idx ls (removed, filtered) =
     (removed @ map (removal_entry idx) (filter (\<lambda>l. l \<in> old) ls),
      filtered @ filter (\<lambda>l. l \<notin> old) ls)"
  by (induction ls arbitrary: removed filtered) auto

lemma length_filter_neq: "length (filter (\<lambda>l. l \<notin> S) ls) \<noteq> length ls \<longleftrightarrow> (\<exists>l\<in>set ls. l \<in> S)"
proof -
  have "length (filter (\<lambda>l. l \<notin> S) ls) = length ls \<longleftrightarrow> (\<forall>l\<in>set ls. l \<notin> S)"
    by (metis filter_id_conv length_filter_less less_irrefl)
  then show ?thesis by blast
qed

lemma remove_patterns_df:
  "df (remove_patterns m idx r s) =
     (if touched (old_pattern_set m r) (pattern_text r)
      then iat_pattern (df s) idx
             (join_nl (filter (\<lambda>l. l \<notin> the (old_pattern_set m r)) (extract_lines (pattern_text r))))
      else df s)"
  by (simp add: remove_patterns_def old_pattern_set_def touched_def filter_loop_eq
      length_filter_neq Let_def split: option.splits)

lemma remove_patterns_removed:
  "removed_patterns (remove_patterns m idx r s) =
     removed_patterns s @ removed_of (old_pattern_set m r) idx (pattern_text r)"
  by (simp add: remove_patterns_def old_pattern_set_def removed_of_def filter_loop_eq
      Let_def split: option.splits)

lemma remove_patterns_comments:
  "removed_comments (remove_patterns m idx r s) = removed_comments s"
  by (simp add: remove_patterns_def filter_loop_eq Let_def split: option.splits)

lemma remove_patterns_changes:
  "changes_made (remove_patterns m idx r s) \<longleftrightarrow>
     changes_made s \<or> touched (old_pattern_set m r) (pattern_text r)"
  by (simp add: remove_patterns_def old_pattern_set_def touched_def filter_loop_eq
      length_filter_neq Let_def split: option.splits)

lemma remove_comments_df:
  "df (remove_comments m idx r s) =
     (if touched (old_comment_set m r) (comment_text r)
      then iat_comment (df s) idx
             (join_nl (filter (\<lambda>l. l \<notin> the (old_comment_set m r)) (extract_lines (comment_text r))))
      else df s)"
  by (simp add: remove_comments_def old_comment_set_def touched_def filter_loop_eq
      length_filter_neq Let_def split: option.splits)

lemma remove_comments_removed:
  "removed_comments (remove_comments m idx r s) =
     removed_comments s @ removed_of (old_comment_set m r) idx (comment_text r)"
  by (simp add: remove_comments_def old_comment_set_def removed_of_def filter_loop_eq
      Let_def split: option.splits)

lemma remove_comments_patterns:
  "removed_patterns (remove_comments m idx r s) = removed_patterns s"
  by (simp add: remove_comments_def filter_loop_eq Let_def split: option.splits)

lemma remove_comments_changes:
  "changes_made (remove_comments m idx r s) \<longleftrightarrow>
     changes_made s \<or> touched (old_comment_set m r) (comment_text r)"
  by (simp add: remove_comments_def old_comment_set_def touched_def filter_loop_eq
      length_filter_neq Let_def split: option.splits)

lemmas reconcile_row_fields =
  remove_patterns_df remove_patterns_removed remove_patterns_comments remove_patterns_changes
  remove_comments_df remove_comments_removed remove_comments_patterns remove_comments_changes

lemma filtered_cell_the:
  "touched old c \<Longrightarrow> filtered_cell old c = Some (join_nl (filter (\<lambda>l. l \<notin> the old) (extract_lines c)))"
  "\<not> touched old c \<Longrightarrow> filtered_cell old c = c"
  by (auto simp: filtered_cell_def touched_def split: option.splits)

lemma reconcile_row_df:
  "df s = pre @ r # rs \<Longrightarrow>
   df (reconcile_row m (length pre) r s) = pre @ row_after m r # rs"
  by (simp add: reconcile_row_def reconcile_row_fields iat_pattern_def iat_comment_def
      row_after_def filtered_cell_the)

text \<open>The state of the loop that starts at position \<open>length pre\<close> of the frame.\<close>

lemma reconcile_loop_closed:
  "df s = pre @ rs \<Longrightarrow>
   df (reconcile_loop m (length pre) rs s) = pre @ map (row_after m) rs
   \<and> removed_patterns (reconcile_loop m (length pre) rs s) =
       removed_patterns s @
       concat (map (\<lambda>(i, r). removed_of (old_pattern_set m r) i (pattern_text r))
                 (enumerate (length pre) rs))
   \<and> removed_comments (reconcile_loop m (length pre) rs s) =
       removed_comments s @
       concat (map (\<lambda>(i, r). removed_of (old_comment_set m r) i (comment_text r))
                 (enumerate (length pre) rs))
   \<and> (changes_made (reconcile_loop m (length pre) rs s) \<longleftrightarrow>
        changes_made s \<or> (\<exists>r\<in>set rs. touched (old_pattern_set m r) (pattern_text r)
                                  \<or> touched (old_comment_set m r) (comment_text r)))"
proof (induction rs arbitrary: pre s)
  case Nil
  then show ?case by simp
next
  case (Cons r rs)
  let ?s = "reconcile_row m (length pre) r s"
  have d: "df ?s = (pre @ [row_after m r]) @ rs"
    using reconcile_row_df [OF Cons.prems] by simp
  have l: "Suc (length pre) = length (pre @ [row_after m r])" by simp
  note ih = Cons.IH [OF d, folded l]
  show ?case
    by (simp add: ih) (simp add: reconcile_row_def reconcile_row_fields disj_ac)
qed

lemmas reconcile_closed =
  reconcile_loop_closed [where pre = "[]" and s = "\<lparr>df = rs, removed_patterns = [], removed_comments = [], changes_made = False\<rparr>" and rs = rs for rs,
    simplified, folded reconcile_def]


lemma filtered_cell_stable:
  "\<not> touched old (filtered_cell old c)"
  "removed_of old idx (filtered_cell old c) = []"
  "filtered_cell old (filtered_cell old c) = filtered_cell old c"
proof -
  show a: "\<not> touched old (filtered_cell old c)"
    by (cases old) (auto simp: touched_def filtered_cell_def extract_join_filter)
  then show "filtered_cell old (filtered_cell old c) = filtered_cell old c"
    by (simp add: filtered_cell_the)
  from a show "removed_of old idx (filtered_cell old c) = []"
    by (cases old) (auto simp: touched_def removed_of_def filter_empty_conv)
qed

lemma row_after_sets:
  "old_pattern_set m (row_after m r) = old_pattern_set m r"
  "old_comment_set m (row_after m r) = old_comment_set m r"
  by (simp_all add: old_pattern_set_def old_comment_set_def row_after_def)

lemma row_after_stable:
  "row_after m (row_after m r) = row_after m r"
  "\<not> touched (old_pattern_set m (row_after m r)) (pattern_text (row_after m r))"
  "\<not> touched (old_comment_set m (row_after m r)) (comment_text (row_after m r))"
  "removed_of (old_pattern_set m (row_after m r)) i (pattern_text (row_after m r)) = []"
  "removed_of (old_comment_set m (row_after m r)) i (comment_text (row_after m r)) = []"
  unfolding row_after_sets by (simp_all add: row_after_def filtered_cell_stable row_after_sets [unfolded row_after_def])


lemma removed_of_enumerate_after:
  assumes "p \<in> set (enumerate n (map (row_after m) rs))"
  shows "removed_of (old_pattern_set m (snd p)) (fst p) (pattern_text (snd p)) = []"
    and "removed_of (old_comment_set m (snd p)) (fst p) (comment_text (snd p)) = []"
proof -
  from assms have "snd p = row_after m (rs ! (fst p - n))"
    by (auto simp: in_set_enumerate_eq)
  then show "removed_of (old_pattern_set m (snd p)) (fst p) (pattern_text (snd p)) = []"
    and "removed_of (old_comment_set m (snd p)) (fst p) (comment_text (snd p)) = []"
    by (simp_all add: row_after_stable)
qed

lemma removed_of_lines:
  "extract_lines c = extract_lines c' \<Longrightarrow> removed_of old i c = removed_of old i c'"
  by (cases old) (simp_all add: removed_of_def)

lemma touched_lines:
  "extract_lines c = extract_lines c' \<Longrightarrow> touched old c = touched old c'"
  by (cases old) (simp_all add: touched_def)

lemma old_sets_object_id:
  "object_id r = object_id r' \<Longrightarrow> old_pattern_set m r = old_pattern_set m r'"
  "object_id r = object_id r' \<Longrightarrow> old_comment_set m r = old_comment_set m r'"
  by (simp_all add: old_pattern_set_def old_comment_set_def)

lemma same_lines_stable:
  assumes "object_id r' = object_id r"
    and "extract_lines (pattern_text r') = extract_lines (pattern_text (row_after m r))"
    and "extract_lines (comment_text r') = extract_lines (comment_text (row_after m r))"
  shows "removed_of (old_pattern_set m r') i (pattern_text r') = []"
    and "removed_of (old_comment_set m r') i (comment_text r') = []"
    and "\<not> touched (old_pattern_set m r') (pattern_text r')"
    and "\<not> touched (old_comment_set m r') (comment_text r')"
proof -
  have o: "object_id r' = object_id (row_after m r)"
    using assms(1) by (simp add: row_after_def)
  show "removed_of (old_pattern_set m r') i (pattern_text r') = []"
    using removed_of_lines [OF assms(2)] old_sets_object_id(1) [OF o, of m]
      row_after_stable(4) [of m r i] by simp
  show "removed_of (old_comment_set m r') i (comment_text r') = []"
    using removed_of_lines [OF assms(3)] old_sets_object_id(2) [OF o, of m]
      row_after_stable(5) [of m r i] by simp
  show "\<not> touched (old_pattern_set m r') (pattern_text r')"
    using touched_lines [OF assms(2)] old_sets_object_id(1) [OF o, of m]
      row_after_stable(2) [of m r] by simp
  show "\<not> touched (old_comment_set m r') (comment_text r')"
    using touched_lines [OF assms(3)] old_sets_object_id(2) [OF o, of m]
      row_after_stable(3) [of m r] by simp
qed

text \<open>
  C4. Reconciliation is idempotent: whatever the index and the current rows, running the
  removal loop again on the rows the first run leaves behind, against the same index,
  removes no line, raises no change flag and leaves the rows as they are. The same holds
  for any snapshot with the same object identifiers whose pattern and comment cells hold
  the lines the first run kept (such as the kept lines joined by newlines): the second run
  removes nothing and reports no change.
\<close>

theorem reconcile_idempotent:
  "reconcile m (df (reconcile m current)) =
     \<lparr>df = df (reconcile m current), removed_patterns = [], removed_comments = [],
      changes_made = False\<rparr>
   \<and> (length filtered = length current
        \<and> (\<forall>i<length current.
              object_id (filtered ! i) = object_id (current ! i)
              \<and> extract_lines (pattern_text (filtered ! i)) =
                  extract_lines (pattern_text (df (reconcile m current) ! i))
              \<and> extract_lines (comment_text (filtered ! i)) =
                  extract_lines (comment_text (df (reconcile m current) ! i)))
        \<longrightarrow> removed_patterns (reconcile m filtered) = []
            \<and> removed_comments (reconcile m filtered) = []
            \<and> \<not> changes_made (reconcile m filtered))"
proof -
  let ?d = "map (row_after m) current"
  have d: "df (reconcile m current) = ?d" by (simp add: reconcile_closed)
  have 1: "df (reconcile m ?d) = ?d"
    by (simp add: reconcile_closed row_after_stable comp_def)
  have 2: "removed_patterns (reconcile m ?d) = []"
    by (simp add: reconcile_closed split_def removed_of_enumerate_after)
  have 3: "removed_comments (reconcile m ?d) = []"
    by (simp add: reconcile_closed split_def removed_of_enumerate_after)
  have 4: "\<not> changes_made (reconcile m ?d)"
    by (simp add: reconcile_closed row_after_stable)
  have first: "reconcile m (df (reconcile m current)) =
     \<lparr>df = df (reconcile m current), removed_patterns = [], removed_comments = [],
      changes_made = False\<rparr>"
    unfolding d using 1 2 3 4 by (intro state.equality) simp_all
  have second: "removed_patterns (reconcile m filtered) = []
            \<and> removed_comments (reconcile m filtered) = []
            \<and> \<not> changes_made (reconcile m filtered)"
    if len: "length filtered = length current"
      and same: "\<forall>i<length current.
              object_id (filtered ! i) = object_id (current ! i)
              \<and> extract_lines (pattern_text (filtered ! i)) =
                  extract_lines (pattern_text (df (reconcile m current) ! i))
              \<and> extract_lines (comment_text (filtered ! i)) =
                  extract_lines (comment_text (df (reconcile m current) ! i))"
  proof -
    have row: "removed_of (old_pattern_set m (filtered ! i)) j (pattern_text (filtered ! i)) = []
        \<and> removed_of (old_comment_set m (filtered ! i)) j (comment_text (filtered ! i)) = []
        \<and> \<not> touched (old_pattern_set m (filtered ! i)) (pattern_text (filtered ! i))
        \<and> \<not> touched (old_comment_set m (filtered ! i)) (comment_text (filtered ! i))"
      if i: "i < length current" for i j
    proof -
      from same i have a: "object_id (filtered ! i) = object_id (current ! i)"
        and b: "extract_lines (pattern_text (filtered ! i)) =
                  extract_lines (pattern_text (row_after m (current ! i)))"
        and c: "extract_lines (comment_text (filtered ! i)) =
                  extract_lines (comment_text (row_after m (current ! i)))"
        unfolding d by simp_all
      from same_lines_stable [OF a b c] show ?thesis by blast
    qed
    have el: "\<exists>i<length current. snd p = filtered ! i" if "p \<in> set (enumerate 0 filtered)" for p
      using that len by (auto simp: in_set_enumerate_eq)
    have rp: "removed_patterns (reconcile m filtered) = []"
      using el row by (fastforce simp: reconcile_closed split_def)
    have rc: "removed_comments (reconcile m filtered) = []"
      using el row by (fastforce simp: reconcile_closed split_def)
    have ch: "\<not> changes_made (reconcile m filtered)"
    proof -
      have "\<exists>i<length current. r = filtered ! i" if "r \<in> set filtered" for r
        using that len by (metis in_set_conv_nth)
      then show ?thesis using row by (fastforce simp: reconcile_closed)
    qed
    from rp rc ch show ?thesis by blast
  qed
  from first second show ?thesis by blast
qed

lemmas eval_defs =
  reconcile_def build_index_def reconcile_row_def remove_patterns_def remove_comments_def
  extract_lines_def cell_text_def strip_def is_space_def str_cell_def removal_entry_def
  str_nat.simps digit_char_def iat_pattern_def iat_comment_def

theorem reconcile_idempotent_witness:
  "df (reconcile (build_index wcc_prior) wcc_current) =
     [\<lparr>object_id = Some ''WCC-1'', pattern_text = Some ''C'', comment_text = None\<rparr>]
   \<and> reconcile (build_index wcc_prior)
        [\<lparr>object_id = Some ''WCC-1'', pattern_text = Some ''C'', comment_text = None\<rparr>] =
     \<lparr>df = [\<lparr>object_id = Some ''WCC-1'', pattern_text = Some ''C'', comment_text = None\<rparr>],
      removed_patterns = [], removed_comments = [], changes_made = False\<rparr>
   \<and> \<not> changes_made (reconcile (build_index wcc_prior)
        [\<lparr>object_id = Some ''WCC-1'', pattern_text = Some ''C'', comment_text = Some []\<rparr>])"
  using reconcile_idempotent [of "build_index wcc_prior" wcc_current
      "[\<lparr>object_id = Some ''WCC-1'', pattern_text = Some ''C'', comment_text = Some []\<rparr>]"]
  by (simp add: wcc_prior_def wcc_current_def eval_defs)

lemma reconcile_row_at:
  assumes "idx < length (df s)" "df s ! idx = r"
  shows "df (reconcile_row m idx r s) ! idx = row_after m r"
    and "length (df (reconcile_row m idx r s)) = length (df s)"
proof -
  let ?pre = "take idx (df s)"
  have d: "df s = ?pre @ r # drop (Suc idx) (df s)"
    using assms by (metis id_take_nth_drop)
  have l: "length ?pre = idx" using assms by simp
  from reconcile_row_df [OF d, of m]
  have e: "df (reconcile_row m idx r s) = ?pre @ row_after m r # drop (Suc idx) (df s)"
    by (simp only: l)
  show "df (reconcile_row m idx r s) ! idx = row_after m r"
    unfolding e using l by (metis nth_append_length)
  show "length (df (reconcile_row m idx r s)) = length (df s)"
    unfolding e using assms by simp
qed

lemma extract_filtered_cell:
  "extract_lines (filtered_cell (Some S) c) = filter (\<lambda>l. l \<notin> S) (extract_lines c)"
proof (cases "touched (Some S) c")
  case True
  then show ?thesis by (simp add: filtered_cell_the extract_join_filter)
next
  case False
  then have "filter (\<lambda>l. l \<notin> S) (extract_lines c) = extract_lines c"
    by (simp add: touched_def filter_id_conv)
  with False show ?thesis by (simp add: filtered_cell_the)
qed

subsection \<open>One row of the current file\<close>

text \<open>
  C5. For a current row whose object identifier has an entry in the index, the lines the
  loop keeps are exactly the extracted pattern lines that are not in the entry's pattern
  set, in their original order (a subsequence of the extracted lines); the entries it
  appends to the removal list are exactly the excluded lines, each written as
  \<open>Row n: line\<close> with \<open>n\<close> the ordinal of the row plus 2; after the step the pattern cell
  of the row holds the kept lines. The same holds for the comment lines against the entry's
  comment set, and the change flag is raised exactly when a line count differs. With the
  prior text A, B and the current text A, B, C for the same identifier, the kept lines are
  C, the removal entries are those of A and B, and the flag is raised.
\<close>

theorem reconcile_row_indexed:
  assumes "m (str_cell (object_id r)) = Some e"
    and "idx < length (df s)" and "df s ! idx = r"
  shows
   "filter_loop (patterns e) idx (extract_lines (pattern_text r)) (removed_patterns s, []) =
      (removed_patterns s @
         map (\<lambda>l. ''Row '' @ str_nat (idx + 2) @ '': '' @ l)
           (filter (\<lambda>l. l \<in> patterns e) (extract_lines (pattern_text r))),
       filter (\<lambda>l. l \<notin> patterns e) (extract_lines (pattern_text r)))
    \<and> subseq (filter (\<lambda>l. l \<notin> patterns e) (extract_lines (pattern_text r)))
         (extract_lines (pattern_text r))
    \<and> removed_patterns (reconcile_row m idx r s) =
        removed_patterns s @
          map (\<lambda>l. ''Row '' @ str_nat (idx + 2) @ '': '' @ l)
            (filter (\<lambda>l. l \<in> patterns e) (extract_lines (pattern_text r)))
    \<and> extract_lines (pattern_text (df (reconcile_row m idx r s) ! idx)) =
        filter (\<lambda>l. l \<notin> patterns e) (extract_lines (pattern_text r))
    \<and> (\<forall>cs. comments e = Some cs \<longrightarrow>
          removed_comments (reconcile_row m idx r s) =
            removed_comments s @
              map (\<lambda>l. ''Row '' @ str_nat (idx + 2) @ '': '' @ l)
                (filter (\<lambda>l. l \<in> cs) (extract_lines (comment_text r)))
          \<and> extract_lines (comment_text (df (reconcile_row m idx r s) ! idx)) =
              filter (\<lambda>l. l \<notin> cs) (extract_lines (comment_text r))
          \<and> (changes_made (reconcile_row m idx r s) \<longleftrightarrow>
               changes_made s
               \<or> length (filter (\<lambda>l. l \<notin> patterns e) (extract_lines (pattern_text r)))
                   \<noteq> length (extract_lines (pattern_text r))
               \<or> length (filter (\<lambda>l. l \<notin> cs) (extract_lines (comment_text r)))
                   \<noteq> length (extract_lines (comment_text r))))"
proof -
  have re: "removal_entry idx = (\<lambda>l. ''Row '' @ str_nat (idx + 2) @ '': '' @ l)"
    by (rule ext) (simp add: removal_entry_def)
  have ps: "old_pattern_set m r = Some (patterns e)"
    using assms(1) by (simp add: old_pattern_set_def)
  have 1: "filter_loop (patterns e) idx (extract_lines (pattern_text r)) (removed_patterns s, []) =
      (removed_patterns s @
         map (\<lambda>l. ''Row '' @ str_nat (idx + 2) @ '': '' @ l)
           (filter (\<lambda>l. l \<in> patterns e) (extract_lines (pattern_text r))),
       filter (\<lambda>l. l \<notin> patterns e) (extract_lines (pattern_text r)))"
    by (simp add: filter_loop_eq re)
  have 2: "subseq (filter (\<lambda>l. l \<notin> patterns e) (extract_lines (pattern_text r)))
         (extract_lines (pattern_text r))"
    by simp
  have 3: "removed_patterns (reconcile_row m idx r s) =
        removed_patterns s @
          map (\<lambda>l. ''Row '' @ str_nat (idx + 2) @ '': '' @ l)
            (filter (\<lambda>l. l \<in> patterns e) (extract_lines (pattern_text r)))"
    by (simp add: reconcile_row_def reconcile_row_fields ps removed_of_def re)
  have at: "df (reconcile_row m idx r s) ! idx = row_after m r"
    using assms(2,3) by (rule reconcile_row_at)
  have 4: "extract_lines (pattern_text (df (reconcile_row m idx r s) ! idx)) =
        filter (\<lambda>l. l \<notin> patterns e) (extract_lines (pattern_text r))"
    by (simp add: at row_after_def ps extract_filtered_cell)
  have 5: "removed_comments (reconcile_row m idx r s) =
            removed_comments s @
              map (\<lambda>l. ''Row '' @ str_nat (idx + 2) @ '': '' @ l)
                (filter (\<lambda>l. l \<in> cs) (extract_lines (comment_text r)))
          \<and> extract_lines (comment_text (df (reconcile_row m idx r s) ! idx)) =
              filter (\<lambda>l. l \<notin> cs) (extract_lines (comment_text r))
          \<and> (changes_made (reconcile_row m idx r s) \<longleftrightarrow>
               changes_made s
               \<or> length (filter (\<lambda>l. l \<notin> patterns e) (extract_lines (pattern_text r)))
                   \<noteq> length (extract_lines (pattern_text r))
               \<or> length (filter (\<lambda>l. l \<notin> cs) (extract_lines (comment_text r)))
                   \<noteq> length (extract_lines (comment_text r)))"
    if c: "comments e = Some cs" for cs
  proof -
    have cs: "old_comment_set m r = Some cs"
      using assms(1) c by (simp add: old_comment_set_def)
    have a: "removed_comments (reconcile_row m idx r s) =
            removed_comments s @
              map (\<lambda>l. ''Row '' @ str_nat (idx + 2) @ '': '' @ l)
                (filter (\<lambda>l. l \<in> cs) (extract_lines (comment_text r)))"
      by (simp add: reconcile_row_def reconcile_row_fields cs removed_of_def re)
    have b: "extract_lines (comment_text (df (reconcile_row m idx r s) ! idx)) =
              filter (\<lambda>l. l \<notin> cs) (extract_lines (comment_text r))"
      by (simp add: at row_after_def cs extract_filtered_cell)
    have c: "changes_made (reconcile_row m idx r s) \<longleftrightarrow>
               changes_made s
               \<or> length (filter (\<lambda>l. l \<notin> patterns e) (extract_lines (pattern_text r)))
                   \<noteq> length (extract_lines (pattern_text r))
               \<or> length (filter (\<lambda>l. l \<notin> cs) (extract_lines (comment_text r)))
                   \<noteq> length (extract_lines (comment_text r))"
      by (simp only: reconcile_row_def reconcile_row_fields cs ps touched_def option.case
          length_filter_neq disj_assoc)
    from a b c show ?thesis by blast
  qed
  from 1 2 3 4 5 show ?thesis by blast
qed

theorem reconcile_row_indexed_witness:
  "build_index wcc_prior (str_cell (object_id (hd wcc_current))) =
     Some \<lparr>patterns = {''A'', ''B''}, comments = Some {}\<rparr>
   \<and> removed_patterns (reconcile_row (build_index wcc_prior) 0 (hd wcc_current)
        \<lparr>df = wcc_current, removed_patterns = [], removed_comments = [], changes_made = False\<rparr>) =
       [''Row 2: A'', ''Row 2: B'']
   \<and> extract_lines (pattern_text (df (reconcile_row (build_index wcc_prior) 0 (hd wcc_current)
        \<lparr>df = wcc_current, removed_patterns = [], removed_comments = [], changes_made = False\<rparr>) ! 0)) =
       [''C'']
   \<and> changes_made (reconcile_row (build_index wcc_prior) 0 (hd wcc_current)
        \<lparr>df = wcc_current, removed_patterns = [], removed_comments = [], changes_made = False\<rparr>)"
proof -
  let ?s = "\<lparr>df = wcc_current, removed_patterns = [], removed_comments = [], changes_made = False\<rparr>"
  have h1: "build_index wcc_prior (str_cell (object_id (hd wcc_current))) =
     Some \<lparr>patterns = {''A'', ''B''}, comments = Some {}\<rparr>"
    by (simp add: wcc_prior_def wcc_current_def eval_defs)
  have h2: "0 < length (df ?s)" by (simp add: wcc_current_def)
  have h3: "df ?s ! 0 = hd wcc_current" by (simp add: wcc_current_def)
  show ?thesis
    using h1 reconcile_row_indexed [where m = "build_index wcc_prior" and r = "hd wcc_current"
        and e = "\<lparr>patterns = {''A'', ''B''}, comments = Some {}\<rparr>" and idx = 0 and s = ?s,
        OF h1 h2 h3]
    by (simp add: wcc_current_def extract_lines_def cell_text_def strip_def is_space_def
        str_nat.simps digit_char_def)
qed

text \<open>
  C7. For a current row whose object identifier has no entry in the index, the step of the
  loop changes nothing: no line is removed from either cell, nothing is appended to the
  removal lists and the change flag is not raised; no branch of the step fails. A current
  file none of whose identifiers is in the index comes out of the loop as it went in.
\<close>

theorem reconcile_row_unseen:
  "(m (str_cell (object_id r)) = None \<longrightarrow> reconcile_row m idx r s = s)
   \<and> ((\<forall>r\<in>set current. m (str_cell (object_id r)) = None) \<longrightarrow>
        reconcile m current =
          \<lparr>df = current, removed_patterns = [], removed_comments = [], changes_made = False\<rparr>)"
proof -
  have step: "reconcile_row m idx r s = s" if "m (str_cell (object_id r)) = None" for idx r s
    using that by (simp add: reconcile_row_def remove_patterns_def remove_comments_def)
  have loop: "reconcile_loop m idx rs s = s"
    if "\<forall>r\<in>set rs. m (str_cell (object_id r)) = None" for idx rs s
    using that by (induction rs arbitrary: idx s) (simp_all add: step)
  show ?thesis using step loop by (simp add: reconcile_def)
qed

theorem reconcile_row_unseen_witness:
  "build_index wcc_prior (str_cell (object_id \<lparr>object_id = Some ''WCC-9'', pattern_text = Some ''A'', comment_text = None\<rparr>)) = None
   \<and> reconcile (build_index wcc_prior)
       [\<lparr>object_id = Some ''WCC-9'', pattern_text = Some ''A'', comment_text = None\<rparr>] =
       \<lparr>df = [\<lparr>object_id = Some ''WCC-9'', pattern_text = Some ''A'', comment_text = None\<rparr>],
        removed_patterns = [], removed_comments = [], changes_made = False\<rparr>"
  using reconcile_row_unseen [of "build_index wcc_prior"
      "\<lparr>object_id = Some ''WCC-9'', pattern_text = Some ''A'', comment_text = None\<rparr>" 0
      "\<lparr>df = [], removed_patterns = [], removed_comments = [], changes_made = False\<rparr>"
      "[\<lparr>object_id = Some ''WCC-9'', pattern_text = Some ''A'', comment_text = None\<rparr>]"]
  by (simp add: wcc_prior_def build_index_def str_cell_def)

subsection \<open>The index\<close>

lemma old_patterns_pass_append:
  "old_patterns_pass (xs @ ys) m = old_patterns_pass ys (old_patterns_pass xs m)"
  by (induction xs arbitrary: m) (simp_all add: Let_def)

lemma old_comments_pass_append:
  "old_comments_pass (xs @ ys) m = old_comments_pass ys (old_comments_pass xs m)"
  by (induction xs arbitrary: m) (simp_all add: Let_def)

lemma old_patterns_pass_closed:
  "old_patterns_pass rs m k =
     (case List.find (\<lambda>r. str_cell (object_id r) = k) (rev rs) of
        None \<Rightarrow> m k
      | Some r \<Rightarrow> Some \<lparr>patterns = set (extract_lines (pattern_text r)), comments = None\<rparr>)"
  by (induction rs rule: rev_induct) (simp_all add: old_patterns_pass_append Let_def)

lemma old_comments_pass_patterns:
  "(case old_comments_pass rs m k of None \<Rightarrow> {} | Some e \<Rightarrow> patterns e) =
     (case m k of None \<Rightarrow> {} | Some e \<Rightarrow> patterns e)"
proof (induction rs arbitrary: m)
  case Nil
  show ?case by simp
next
  case (Cons r rs)
  show ?case
    by (simp add: Let_def Cons.IH split: option.splits)
qed

lemma old_comments_pass_comments:
  "old_comments_pass rs m k =
     (case List.find (\<lambda>r. str_cell (object_id r) = k) (rev rs) of
        None \<Rightarrow> m k
      | Some r \<Rightarrow>
          Some \<lparr>patterns = (case m k of None \<Rightarrow> {} | Some e \<Rightarrow> patterns e),
                comments = Some (set (extract_lines (comment_text r)))\<rparr>)"
proof (induction rs rule: rev_induct)
  case Nil
  show ?case by simp
next
  case (snoc r rs)
  show ?case
  proof (cases "str_cell (object_id r) = k")
    case False
    then show ?thesis using snoc by (simp add: old_comments_pass_append Let_def)
  next
    case True
    have "(case old_comments_pass rs m k of None \<Rightarrow> {} | Some e \<Rightarrow> patterns e) =
        (case m k of None \<Rightarrow> {} | Some e \<Rightarrow> patterns e)"
      by (rule old_comments_pass_patterns)
    then show ?thesis using True
      by (auto simp: old_comments_pass_append Let_def split: option.splits)
  qed
qed

lemma build_index_closed:
  "build_index prior k =
     (case List.find (\<lambda>r. str_cell (object_id r) = k) (rev prior) of
        None \<Rightarrow> None
      | Some r \<Rightarrow>
          Some \<lparr>patterns = set (extract_lines (pattern_text r)),
                comments = Some (set (extract_lines (comment_text r)))\<rparr>)"
  by (simp add: build_index_def old_comments_pass_comments old_patterns_pass_closed
      split: option.splits)

lemma build_index_None:
  "build_index prior k = None \<longleftrightarrow> k \<notin> (\<lambda>r. str_cell (object_id r)) ` set prior"
proof -
  let ?f = "List.find (\<lambda>r. str_cell (object_id r) = k) (rev prior)"
  have a: "?f = None \<longleftrightarrow> k \<notin> (\<lambda>r. str_cell (object_id r)) ` set prior"
    by (auto simp: find_None_iff)
  show ?thesis
  proof (cases ?f)
    case None
    then have "build_index prior k = None" by (simp add: build_index_closed)
    with a None show ?thesis by simp
  next
    case (Some r)
    then have "build_index prior k \<noteq> None" by (simp add: build_index_closed)
    moreover from a Some have "k \<in> (\<lambda>r. str_cell (object_id r)) ` set prior" by simp
    ultimately show ?thesis by simp
  qed
qed

lemma build_index_dom:
  "dom (build_index prior) = (\<lambda>r. str_cell (object_id r)) ` set prior"
  using build_index_None [of prior] by (auto simp: dom_def)

lemma find_rev_filter:
  "List.find P (rev xs) = List.find P (rev (filter P xs))"
  by (induction xs rule: rev_induct) simp_all

text \<open>
  C1, as stated, fails: with two prior rows of the same object identifier whose pattern
  lines are P1 and P2 (and whose comment lines are K1 and K2), the pattern set of the index
  is not the union of the two: it holds P2 only; neither is the comment set the union.
\<close>

theorem build_index_union_counterexample:
  "map_option patterns (build_index dup_prior ''X'') \<noteq> Some {''P1'', ''P2''}
   \<and> map_option patterns (build_index dup_prior ''X'') = Some {''P2''}
   \<and> Option.bind (build_index dup_prior ''X'') comments \<noteq> Some {''K1'', ''K2''}"
  by (simp add: dup_prior_def build_index_def extract_lines_def cell_text_def strip_def
      is_space_def str_cell_def)

text \<open>
  C1, amended. For every prior snapshot and object identifier, the index has an entry
  exactly when some prior row has that identifier, and the entry holds the pattern line set
  and the comment line set of the last such row: a later row with the same identifier
  replaces the sets of the earlier ones.
\<close>

theorem build_index_last_row:
  "(build_index prior k = None \<longleftrightarrow> k \<notin> (\<lambda>r. str_cell (object_id r)) ` set prior)
   \<and> build_index prior k =
     (case List.find (\<lambda>r. str_cell (object_id r) = k) (rev prior) of
        None \<Rightarrow> None
      | Some r \<Rightarrow>
          Some \<lparr>patterns = set (extract_lines (pattern_text r)),
                comments = Some (set (extract_lines (comment_text r)))\<rparr>)"
proof -
  let ?last = "List.find (\<lambda>r. str_cell (object_id r) = k) (rev prior)"
  have p: "old_patterns_pass prior Map.empty k =
      (case ?last of None \<Rightarrow> None
       | Some r \<Rightarrow> Some \<lparr>patterns = set (extract_lines (pattern_text r)), comments = None\<rparr>)"
    by (simp add: old_patterns_pass_closed)
  have "build_index prior k =
      (case ?last of None \<Rightarrow> None
       | Some r \<Rightarrow>
           Some \<lparr>patterns = set (extract_lines (pattern_text r)),
                 comments = Some (set (extract_lines (comment_text r)))\<rparr>)"
    unfolding build_index_def old_comments_pass_comments p
    by (cases ?last) simp_all
  then show ?thesis using build_index_None [of prior k] by blast
qed

theorem build_index_last_row_witness:
  "build_index dup_prior ''X'' = Some \<lparr>patterns = {''P2''}, comments = Some {''K2''}\<rparr>
   \<and> build_index dup_prior ''Y'' = None"
  using build_index_last_row [of dup_prior "''X''"] build_index_last_row [of dup_prior "''Y''"]
  by (simp add: dup_prior_def extract_lines_def cell_text_def strip_def is_space_def str_cell_def)

text \<open>
  C10. After the index is built over any prior snapshot, its keys are the object
  identifiers of the prior rows and every entry has a comment set next to its pattern set;
  the comments pass creates an entry with an empty pattern set for an identifier it does
  not find. So for every current row whose identifier occurs in the prior snapshot the
  guard of the comment filter holds and the filter runs: the removal list grows by the
  comment lines of the row that are in the entry's comment set.
\<close>

theorem build_index_comments_present:
  "dom (build_index prior) = (\<lambda>p. str_cell (object_id p)) ` set prior
   \<and> (\<forall>k e. build_index prior k = Some e \<longrightarrow> comments e \<noteq> None)
   \<and> (\<forall>p\<in>set prior. m (str_cell (object_id p)) = None \<longrightarrow>
        map_option patterns (old_comments_pass prior m (str_cell (object_id p))) = Some {})
   \<and> (\<forall>p\<in>set prior. str_cell (object_id r) = str_cell (object_id p) \<longrightarrow>
        (\<exists>e cs. build_index prior (str_cell (object_id r)) = Some e \<and> comments e = Some cs
           \<and> removed_comments (remove_comments (build_index prior) idx r s) =
               removed_comments s @
                 map (removal_entry idx) (filter (\<lambda>l. l \<in> cs) (extract_lines (comment_text r)))))"
proof -
  have 1: "dom (build_index prior) = (\<lambda>p. str_cell (object_id p)) ` set prior"
    by (rule build_index_dom)
  have 2: "\<forall>k e. build_index prior k = Some e \<longrightarrow> comments e \<noteq> None"
    by (auto simp: build_index_closed split: option.splits)
  have 3: "\<forall>p\<in>set prior. m (str_cell (object_id p)) = None \<longrightarrow>
        map_option patterns (old_comments_pass prior m (str_cell (object_id p))) = Some {}"
    by (auto simp: old_comments_pass_comments find_None_iff split: option.splits)
  have 4: "\<exists>e cs. build_index prior (str_cell (object_id r)) = Some e \<and> comments e = Some cs
           \<and> removed_comments (remove_comments (build_index prior) idx r s) =
               removed_comments s @
                 map (removal_entry idx) (filter (\<lambda>l. l \<in> cs) (extract_lines (comment_text r)))"
    if "p \<in> set prior" "str_cell (object_id r) = str_cell (object_id p)" for p
  proof -
    from that have "str_cell (object_id r) \<in> dom (build_index prior)"
      unfolding build_index_dom by (metis imageI)
    then obtain e where e: "build_index prior (str_cell (object_id r)) = Some e" by blast
    with 2 obtain cs where cs: "comments e = Some cs" by blast
    have "old_comment_set (build_index prior) r = Some cs"
      using e cs by (simp add: old_comment_set_def)
    then have "removed_comments (remove_comments (build_index prior) idx r s) =
               removed_comments s @
                 map (removal_entry idx) (filter (\<lambda>l. l \<in> cs) (extract_lines (comment_text r)))"
      by (simp add: remove_comments_removed removed_of_def)
    with e cs show ?thesis by blast
  qed
  from 1 2 3 4 show ?thesis by blast
qed

theorem build_index_comments_present_witness:
  "hd wcc_prior \<in> set wcc_prior
   \<and> build_index wcc_prior ''WCC-1'' = Some \<lparr>patterns = {''A'', ''B''}, comments = Some {}\<rparr>
   \<and> dom (build_index wcc_prior) = {''WCC-1''}
   \<and> map_option patterns (old_comments_pass wcc_prior Map.empty ''WCC-1'') = Some {}
   \<and> removed_comments (remove_comments (build_index wcc_prior) 0 (hd wcc_current)
         \<lparr>df = wcc_current, removed_patterns = [], removed_comments = [], changes_made = False\<rparr>) = []"
  using build_index_comments_present [of wcc_prior Map.empty "hd wcc_current" 0
      "\<lparr>df = wcc_current, removed_patterns = [], removed_comments = [], changes_made = False\<rparr>"]
  by (simp add: wcc_prior_def wcc_current_def eval_defs)

subsection \<open>Rows do not influence one another\<close>

text \<open>
  C9. The result of the loop for a current row depends only on the fields of that row (its
  ordinal among them) and on the index entry of its object identifier: two indexes that
  agree on that entry give the same step; two runs whose current files hold the same row at
  a position, with indexes that agree on the entry of its identifier, leave the same row
  at that position; the index entry of an identifier depends only on the prior rows with
  that identifier; and the step for one row leaves every other row of the frame as it was.
  So a line removed for one object identifier never affects a row with another one.
\<close>

theorem reconcile_row_local:
  "(m1 (str_cell (object_id r)) = m2 (str_cell (object_id r)) \<longrightarrow>
      reconcile_row m1 idx r s = reconcile_row m2 idx r s)
   \<and> (i < length c1 \<and> i < length c2 \<and> c1 ! i = c2 ! i
        \<and> m1 (str_cell (object_id (c1 ! i))) = m2 (str_cell (object_id (c1 ! i))) \<longrightarrow>
        df (reconcile m1 c1) ! i = df (reconcile m2 c2) ! i)
   \<and> (filter (\<lambda>p. str_cell (object_id p) = k) prior1 =
        filter (\<lambda>p. str_cell (object_id p) = k) prior2 \<longrightarrow>
        build_index prior1 k = build_index prior2 k)
   \<and> (j \<noteq> idx \<longrightarrow> df (reconcile_row m1 idx r s) ! j = df s ! j)"
proof -
  have 1: "reconcile_row m1 idx r s = reconcile_row m2 idx r s"
    if "m1 (str_cell (object_id r)) = m2 (str_cell (object_id r))"
    using that by (simp add: reconcile_row_def remove_patterns_def remove_comments_def)
  have ra: "row_after m1 x = row_after m2 x"
    if "m1 (str_cell (object_id x)) = m2 (str_cell (object_id x))" for x
    using that by (simp add: row_after_def old_pattern_set_def old_comment_set_def)
  have 2: "df (reconcile m1 c1) ! i = df (reconcile m2 c2) ! i"
    if "i < length c1 \<and> i < length c2 \<and> c1 ! i = c2 ! i
        \<and> m1 (str_cell (object_id (c1 ! i))) = m2 (str_cell (object_id (c1 ! i)))"
  proof -
    from that have a: "i < length c1" and b: "i < length c2" and c: "c1 ! i = c2 ! i"
      and d: "m1 (str_cell (object_id (c1 ! i))) = m2 (str_cell (object_id (c1 ! i)))"
      by blast+
    have "df (reconcile m1 c1) ! i = row_after m1 (c1 ! i)"
      using a by (simp add: reconcile_closed)
    also have "\<dots> = row_after m2 (c1 ! i)" using d by (rule ra)
    also have "\<dots> = row_after m2 (c2 ! i)" by (simp only: c)
    also have "\<dots> = df (reconcile m2 c2) ! i"
      using b by (simp add: reconcile_closed)
    finally show ?thesis .
  qed
  have 3: "build_index prior1 k = build_index prior2 k"
    if "filter (\<lambda>p. str_cell (object_id p) = k) prior1 =
        filter (\<lambda>p. str_cell (object_id p) = k) prior2"
    unfolding build_index_closed
    using that find_rev_filter [of "\<lambda>p. str_cell (object_id p) = k" prior1]
      find_rev_filter [of "\<lambda>p. str_cell (object_id p) = k" prior2]
    by simp
  have 4: "df (reconcile_row m1 idx r s) ! j = df s ! j" if "j \<noteq> idx"
    using that
    by (simp add: reconcile_row_def reconcile_row_fields iat_pattern_def iat_comment_def)
  from 1 2 3 4 show ?thesis by blast
qed

theorem reconcile_row_local_witness:
  "filter (\<lambda>p. str_cell (object_id p) = ''WCC-1'') wcc_prior =
     filter (\<lambda>p. str_cell (object_id p) = ''WCC-1'') (wcc_prior @ [other_row])
   \<and> build_index wcc_prior ''WCC-1'' = build_index (wcc_prior @ [other_row]) ''WCC-1''
   \<and> reconcile_row (build_index wcc_prior) 0 (hd wcc_current)
        \<lparr>df = wcc_current, removed_patterns = [], removed_comments = [], changes_made = False\<rparr> =
      reconcile_row (build_index (wcc_prior @ [other_row])) 0 (hd wcc_current)
        \<lparr>df = wcc_current, removed_patterns = [], removed_comments = [], changes_made = False\<rparr>
   \<and> df (reconcile (build_index wcc_prior) wcc_current) ! 0 =
      df (reconcile (build_index (wcc_prior @ [other_row])) (wcc_current @ [other_row])) ! 0
   \<and> df (reconcile_row (build_index wcc_prior) 0 (hd wcc_current)
        \<lparr>df = wcc_current @ [other_row], removed_patterns = [], removed_comments = [],
         changes_made = False\<rparr>) ! 1 = other_row"
  using reconcile_row_local [of "build_index wcc_prior" "hd wcc_current"
      "build_index (wcc_prior @ [other_row])" 0
      "\<lparr>df = wcc_current, removed_patterns = [], removed_comments = [], changes_made = False\<rparr>"
      0 wcc_current "wcc_current @ [other_row]" "''WCC-1''" wcc_prior "wcc_prior @ [other_row]" 1]
    reconcile_row_local [of "build_index wcc_prior" "hd wcc_current"
      "build_index wcc_prior" 0
      "\<lparr>df = wcc_current @ [other_row], removed_patterns = [], removed_comments = [],
         changes_made = False\<rparr>"
      0 wcc_current wcc_current "''WCC-1''" wcc_prior wcc_prior 1]
  by (simp add: wcc_prior_def wcc_current_def other_row_def eval_defs)

subsection \<open>Writing the workbook\<close>

lemma check_string_accepts:
  "\<not> isl (check_string v) \<Longrightarrow> check_string v = Inr (take 32767 v)"
  by (simp add: check_string_def Let_def split: if_splits)

lemma ws_cell_set_accepts:
  "\<not> isl (check_string v) \<Longrightarrow>
   ws_cell_set ws r c v =
     Inr (ws\<lparr>cells := (cells ws)((r, c) := Some (take 32767 v)),
             max_column := max (max_column ws) c\<rparr>)"
  by (simp add: ws_cell_set_def check_string_accepts)

text \<open>The sheet the loop leaves when no call raises.\<close>

lemma write_loop_accepts:
  assumes "\<forall>x\<in>set rs. \<not> isl (check_string (cell_text (pattern_text x)))
             \<and> (ccl \<noteq> None \<longrightarrow> \<not> isl (check_string (cell_text (comment_text x))))"
  shows "\<exists>ws'. write_loop ccl idx rs ws = Inr ws'
           \<and> (\<forall>r c. cells ws' (r, c) =
                 (if idx + 2 \<le> r \<and> r < idx + 2 + length rs
                  then (if ccl = Some c
                        then Some (take 32767 (cell_text (comment_text (rs ! (r - idx - 2)))))
                        else if c = 7
                        then Some (take 32767 (cell_text (pattern_text (rs ! (r - idx - 2)))))
                        else cells ws (r, c))
                  else cells ws (r, c)))"
  using assms
proof (induction rs arbitrary: idx ws)
  case Nil
  show ?case by auto
next
  case (Cons x xs)
  define p where "p = take 32767 (cell_text (pattern_text x))"
  define q where "q = take 32767 (cell_text (comment_text x))"
  define ws1 where "ws1 =
    ws\<lparr>cells := (cells ws)((idx + 2, 7) := Some p), max_column := max (max_column ws) 7\<rparr>"
  define ws2 where "ws2 =
    (case ccl of None \<Rightarrow> ws1
     | Some c' \<Rightarrow> ws1\<lparr>cells := (cells ws1)((idx + 2, c') := Some q),
                      max_column := max (max_column ws1) c'\<rparr>)"
  have okp: "\<not> isl (check_string (cell_text (pattern_text x)))"
    using Cons.prems by simp
  have okq: "\<not> isl (check_string (cell_text (comment_text x)))" if "ccl \<noteq> None"
    using Cons.prems that by simp
  have s1: "ws_cell_set ws (idx + 2) 7 (cell_text (pattern_text x)) = Inr ws1"
    unfolding ws1_def p_def by (rule ws_cell_set_accepts [OF okp])
  have s2: "(case ccl of None \<Rightarrow> Inr ws1
             | Some c' \<Rightarrow> ws_cell_set ws1 (idx + 2) c' (cell_text (comment_text x))) = Inr ws2"
  proof (cases ccl)
    case None
    then show ?thesis by (simp add: ws2_def)
  next
    case (Some c')
    then have "\<not> isl (check_string (cell_text (comment_text x)))" using okq by simp
    then show ?thesis using Some by (simp add: ws2_def q_def ws_cell_set_accepts)
  qed
  have step: "write_loop ccl idx (x # xs) ws = write_loop ccl (Suc idx) xs ws2"
    by (simp only: write_loop.simps Let_def s1 s2 sum.case)
  have c2: "cells ws2 (r, c) =
      (if r = idx + 2
       then (if ccl = Some c then Some q else if c = 7 then Some p else cells ws (r, c))
       else cells ws (r, c))" for r c
    by (cases ccl) (auto simp: ws2_def ws1_def)
  have rest: "\<forall>y\<in>set xs. \<not> isl (check_string (cell_text (pattern_text y)))
             \<and> (ccl \<noteq> None \<longrightarrow> \<not> isl (check_string (cell_text (comment_text y))))"
    using Cons.prems by simp
  from Cons.IH [OF rest, of "Suc idx" ws2] obtain ws' where
    w: "write_loop ccl (Suc idx) xs ws2 = Inr ws'"
    and cs: "\<And>r c. cells ws' (r, c) =
                 (if Suc idx + 2 \<le> r \<and> r < Suc idx + 2 + length xs
                  then (if ccl = Some c
                        then Some (take 32767 (cell_text (comment_text (xs ! (r - Suc idx - 2)))))
                        else if c = 7
                        then Some (take 32767 (cell_text (pattern_text (xs ! (r - Suc idx - 2)))))
                        else cells ws2 (r, c))
                  else cells ws2 (r, c))"
    by blast
  have "cells ws' (r, c) =
                 (if idx + 2 \<le> r \<and> r < idx + 2 + length (x # xs)
                  then (if ccl = Some c
                        then Some (take 32767 (cell_text (comment_text ((x # xs) ! (r - idx - 2)))))
                        else if c = 7
                        then Some (take 32767 (cell_text (pattern_text ((x # xs) ! (r - idx - 2)))))
                        else cells ws (r, c))
                  else cells ws (r, c))" for r c
  proof (cases "r = idx + 2")
    case True
    then have "(x # xs) ! (r - idx - 2) = x" by simp
    with True show ?thesis unfolding cs c2 by (simp add: p_def q_def)
  next
    case False
    show ?thesis
    proof (cases "Suc idx + 2 \<le> r")
      case True
      then have "r - idx - 2 = Suc (r - Suc idx - 2)" by arith
      then have "(x # xs) ! (r - idx - 2) = xs ! (r - Suc idx - 2)" by simp
      with True False show ?thesis unfolding cs c2 by simp
    next
      case False
      with \<open>r \<noteq> idx + 2\<close> have "\<not> idx + 2 \<le> r" by arith
      with False show ?thesis unfolding cs c2 by simp
    qed
  qed
  with w step show ?case by auto
qed


lemmas process_defs =
  find_comment_col_def get_loc_def astype_str_def comment_col_name_def ex_columns_def
  ex_new_df_def ex_old_df_def ex_ws_def ex_ws_no_header_def wcc_prior_def wcc_current_def
  blank_row_def

lemma ex_reconcile:
  "reconcile (build_index (astype_str (rows ex_old_df))) (astype_str (rows ex_new_df)) =
     \<lparr>df = [\<lparr>object_id = Some ''WCC-1'', pattern_text = Some ''C'', comment_text = None\<rparr>,
            blank_row],
      removed_patterns = [''Row 2: A'', ''Row 2: B''], removed_comments = [],
      changes_made = True\<rparr>"
  by (simp add: process_defs eval_defs)

lemma ex_checks:
  "comment_col_name \<in> set (columns ex_new_df)"
  "get_loc (columns ex_new_df) comment_col_name = 7"
  "length (columns ex_new_df) = 8" "length (columns ex_old_df) = 8"
  by (simp_all add: process_defs)

lemma ex_find:
  "find_comment_col ex_ws = Some 8" "find_comment_col ex_ws_no_header = None"
  by (simp_all add: find_comment_col_def ex_ws_def ex_ws_no_header_def comment_col_name_def upt_rec)

lemma ex_write:
  "\<exists>ws'. write_workbook
           [\<lparr>object_id = Some ''WCC-1'', pattern_text = Some ''C'', comment_text = None\<rparr>,
            blank_row] ws = Inr ws'
     \<and> cells ws' (2, 7) = (if find_comment_col ws = Some 7 then Some [] else Some ''C'')
     \<and> cells ws' (3, 7) = Some []
     \<and> (find_comment_col ws = Some 8 \<longrightarrow> cells ws' (3, 8) = Some [])"
proof -
  let ?d = "[\<lparr>object_id = Some ''WCC-1'', pattern_text = Some ''C'', comment_text = None\<rparr>,
            blank_row]"
  have ok: "\<forall>x\<in>set ?d. \<not> isl (check_string (cell_text (pattern_text x)))
             \<and> (find_comment_col ws \<noteq> None \<longrightarrow> \<not> isl (check_string (cell_text (comment_text x))))"
    by (simp add: check_string_def illegal_char_def cell_text_def blank_row_def)
  from write_loop_accepts [OF ok, of 0 ws] obtain ws' where
    w: "write_loop (find_comment_col ws) 0 ?d ws = Inr ws'"
    and cs: "\<And>r c. cells ws' (r, c) =
                 (if 0 + 2 \<le> r \<and> r < 0 + 2 + length ?d
                  then (if find_comment_col ws = Some c
                        then Some (take 32767 (cell_text (comment_text (?d ! (r - 0 - 2)))))
                        else if c = 7
                        then Some (take 32767 (cell_text (pattern_text (?d ! (r - 0 - 2)))))
                        else cells ws (r, c))
                  else cells ws (r, c))"
    by blast
  have "cells ws' (2, 7) = (if find_comment_col ws = Some 7 then Some [] else Some ''C'')"
    unfolding cs by (simp add: cell_text_def)
  moreover have "cells ws' (3, 7) = Some []"
    unfolding cs by (simp add: cell_text_def blank_row_def)
  moreover have "find_comment_col ws = Some 8 \<longrightarrow> cells ws' (3, 8) = Some []"
    unfolding cs by (simp add: cell_text_def blank_row_def)
  ultimately show ?thesis using w unfolding write_workbook_def by blast
qed

lemma ex_process:
  "write_workbook
     [\<lparr>object_id = Some ''WCC-1'', pattern_text = Some ''C'', comment_text = None\<rparr>, blank_row]
     ws = Inr ws' \<Longrightarrow>
   process_removal ex_new_df (Inr ex_old_df) (Inr ws) None =
     (Result (result_message [''Row 2: A'', ''Row 2: B''] []),
      ex_new_df\<lparr>rows := [\<lparr>object_id = Some ''WCC-1'', pattern_text = Some ''C'',
                           comment_text = None\<rparr>, blank_row]\<rparr>, Some ws')"
  by (simp add: process_removal_def ex_reconcile ex_checks Let_def)

text \<open>
  C2, evaluated on the code. The new file has a row for WCC-1, from which two lines are
  removed, and a row for WCC-2 with blank pattern and comment cells, which the loop leaves
  as it is. The old file is read, the workbook is loaded and saved without an exception.
  The writer still writes the cells of the second row: the blank cells G3 and H3 of the
  sheet hold an empty string in the saved workbook.
\<close>

theorem writer_rewrites_unchanged_row:
  "rows (fst (snd (process_removal ex_new_df (Inr ex_old_df) (Inr ex_ws) None))) ! 1 =
     rows ex_new_df ! 1
   \<and> snd (snd (process_removal ex_new_df (Inr ex_old_df) (Inr ex_ws) None)) \<noteq> None
   \<and> cells ex_ws (3, 7) = None
   \<and> cells (the (snd (snd (process_removal ex_new_df (Inr ex_old_df) (Inr ex_ws) None)))) (3, 7)
       = Some []
   \<and> cells ex_ws (3, 8) = None
   \<and> cells (the (snd (snd (process_removal ex_new_df (Inr ex_old_df) (Inr ex_ws) None)))) (3, 8)
       = Some []"
proof -
  from ex_write [of ex_ws] obtain ws' where
    w: "write_workbook
         [\<lparr>object_id = Some ''WCC-1'', pattern_text = Some ''C'', comment_text = None\<rparr>,
          blank_row] ex_ws = Inr ws'"
    and c7: "cells ws' (3, 7) = Some []" and c8: "cells ws' (3, 8) = Some []"
    using ex_find(1) by blast
  have before: "cells ex_ws (3, 7) = None" "cells ex_ws (3, 8) = None"
    by (simp_all add: ex_ws_def ex_ws_no_header_def)
  have unchanged: "[\<lparr>object_id = Some ''WCC-1'', pattern_text = Some ''C'',
      comment_text = None\<rparr>, blank_row] ! 1 = rows ex_new_df ! 1"
    by (simp add: ex_new_df_def wcc_current_def)
  show ?thesis
    using c7 c8 before unchanged by (simp add: ex_process [OF w])
qed


text \<open>
  The operation can end with an error after the frame has been changed: a surviving line
  with a vertical tab is refused by the sheet, the loop has already removed two lines from
  the frame, and nothing is saved.
\<close>

lemma write_raises_after_frame_changed:
  "process_removal vt_new_df (Inr ex_old_df) (Inr ex_ws) None =
     (Error (''Failed to save updated file: '' @ [CHR ''C'', CHR 0x0B, CHR ''D'']
              @ '' cannot be used in worksheets.''),
      vt_new_df\<lparr>rows := [\<lparr>object_id = Some ''WCC-1'',
                            pattern_text = Some [CHR ''C'', CHR 0x0B, CHR ''D''],
                            comment_text = None\<rparr>]\<rparr>,
      None)"
proof -
  have r: "reconcile (build_index (astype_str (rows ex_old_df))) (astype_str (rows vt_new_df)) =
     \<lparr>df = [\<lparr>object_id = Some ''WCC-1'', pattern_text = Some [CHR ''C'', CHR 0x0B, CHR ''D''],
             comment_text = None\<rparr>],
      removed_patterns = [''Row 2: A'', ''Row 2: B''], removed_comments = [],
      changes_made = True\<rparr>"
    by (simp add: process_defs vt_new_df_def eval_defs)
  have c: "comment_col_name \<in> set (columns vt_new_df)"
    "get_loc (columns vt_new_df) comment_col_name = 7"
    "length (columns vt_new_df) = 8"
    by (simp_all add: process_defs vt_new_df_def)
  have w: "write_workbook
      [\<lparr>object_id = Some ''WCC-1'', pattern_text = Some [CHR ''C'', CHR 0x0B, CHR ''D''],
        comment_text = None\<rparr>] ex_ws =
      Inl ([CHR ''C'', CHR 0x0B, CHR ''D''] @ '' cannot be used in worksheets.'')"
    by (simp add: write_workbook_def ex_find ws_cell_set_def check_string_def illegal_char_def
        cell_text_def)
  show ?thesis
    by (simp add: process_removal_def r c ex_checks w Let_def)
qed



subsection \<open>The result message\<close>

lemma removed_of_form:
  "x \<in> set (removed_of old i c) \<Longrightarrow> \<exists>line. x = removal_entry i line"
  by (cases old) (auto simp: removed_of_def)

lemma reconcile_removed_form:
  assumes "x \<in> set (removed_patterns (reconcile m current)) \<union> set (removed_comments (reconcile m current))"
  shows "\<exists>i line. i < length current \<and> x = ''Row '' @ str_nat (i + 2) @ '': '' @ line"
proof -
  from assms obtain p where p: "p \<in> set (enumerate 0 current)"
    and x: "x \<in> set (removed_of (old_pattern_set m (snd p)) (fst p) (pattern_text (snd p)))
            \<or> x \<in> set (removed_of (old_comment_set m (snd p)) (fst p) (comment_text (snd p)))"
    by (auto simp: reconcile_closed split_def)
  from p have "fst p < length current" by (simp add: in_set_enumerate_eq)
  moreover from x obtain line where "x = removal_entry (fst p) line"
    using removed_of_form by blast
  ultimately show ?thesis unfolding removal_entry_def by blast
qed

text \<open>
  C8. For every pair of removal lists the result message renders, per category, the first
  20 entries and no more (the rendered list has \<open>min 20 n\<close> entries); when a category
  has more than 20 entries the message marks the cut with a line \<open>... and k more\<close> after
  the 20 rendered ones, where \<open>k\<close> is the total minus 20, the number of entries left out.
  With 25 removals exactly 20 entries are rendered and the count is 5. Every entry the loop
  produces is written \<open>Row n: line\<close> with \<open>n\<close> the ordinal of a current row plus 2.
\<close>

theorem result_message_cap:
  "result_message rp rc =
     ''Successfully removed '' @ str_nat (length rp) @ '' previously submitted patterns and ''
       @ str_nat (length rc) @ '' previously submitted comments.\<newline>\<newline>Removed patterns:\<newline>''
       @ join_nl (take 20 rp)
       @ (if 20 < length rp then ''\<newline>... and '' @ str_nat (length rp - 20) @ '' more'' else [])
       @ ''\<newline>\<newline>Removed comments:\<newline>''
       @ join_nl (take 20 rc)
       @ (if 20 < length rc then ''\<newline>... and '' @ str_nat (length rc - 20) @ '' more'' else [])
   \<and> length (take 20 rp) = min 20 (length rp) \<and> length (take 20 rc) = min 20 (length rc)
   \<and> (20 < length rp \<longrightarrow> take 20 rp @ drop 20 rp = rp \<and> length (take 20 rp) = 20
          \<and> length (drop 20 rp) = length rp - 20)
   \<and> (20 < length rc \<longrightarrow> take 20 rc @ drop 20 rc = rc \<and> length (take 20 rc) = 20
          \<and> length (drop 20 rc) = length rc - 20)
   \<and> (length rp = 25 \<longrightarrow> length (take 20 rp) = 20 \<and> str_nat (length rp - 20) = ''5'')
   \<and> (\<forall>x\<in>set (removed_patterns (reconcile m current)) \<union> set (removed_comments (reconcile m current)).
         \<exists>i line. i < length current \<and> x = ''Row '' @ str_nat (i + 2) @ '': '' @ line)"
proof -
  have 1: "result_message rp rc =
     ''Successfully removed '' @ str_nat (length rp) @ '' previously submitted patterns and ''
       @ str_nat (length rc) @ '' previously submitted comments.\<newline>\<newline>Removed patterns:\<newline>''
       @ join_nl (take 20 rp)
       @ (if 20 < length rp then ''\<newline>... and '' @ str_nat (length rp - 20) @ '' more'' else [])
       @ ''\<newline>\<newline>Removed comments:\<newline>''
       @ join_nl (take 20 rc)
       @ (if 20 < length rc then ''\<newline>... and '' @ str_nat (length rc - 20) @ '' more'' else [])"
    by (simp add: result_message_def Let_def)
  have 2: "length rp = 25 \<longrightarrow> length (take 20 rp) = 20 \<and> str_nat (length rp - 20) = ''5''"
    by (simp add: str_nat.simps digit_char_def)
  have 3: "\<forall>x\<in>set (removed_patterns (reconcile m current)) \<union> set (removed_comments (reconcile m current)).
         \<exists>i line. i < length current \<and> x = ''Row '' @ str_nat (i + 2) @ '': '' @ line"
    using reconcile_removed_form by blast
  have 4: "length (take 20 xs) = min 20 (length xs)" for xs :: "string list" by simp
  have 5: "20 < length xs \<longrightarrow> take 20 xs @ drop 20 xs = xs \<and> length (take 20 xs) = 20
          \<and> length (drop 20 xs) = length xs - 20" for xs :: "string list" by simp
  show ?thesis using 1 2 3 4 [of rp] 4 [of rc] 5 [of rp] 5 [of rc] by blast
qed

theorem result_message_cap_witness:
  "length many_removed = 25
   \<and> length (take 20 many_removed) = 20
   \<and> result_message many_removed [] =
       ''Successfully removed 25 previously submitted patterns and 0 previously submitted comments.\<newline>\<newline>Removed patterns:\<newline>''
       @ join_nl (replicate 20 ''Row 2: A'')
       @ ''\<newline>... and 5 more\<newline>\<newline>Removed comments:\<newline>''
   \<and> ''Row 2: A'' \<in> set (removed_patterns (reconcile (build_index wcc_prior) wcc_current))"
  using result_message_cap [of many_removed "[]" "build_index wcc_prior" wcc_current]
  by (simp add: many_removed_def wcc_prior_def wcc_current_def eval_defs)

end
